theory Spec2Isabelle
  imports Main "HOL-Library.Word"
begin

section \<open>The Solidity value types and the execution environment\<close>

type_synonym address = "160 word"
type_synonym bytes32 = "256 word"
type_synonym uint256 = "256 word"

text \<open>
  A failed \<open>require\<close> reverts with its message; checked arithmetic (Solidity 0.8)
  reverts with a panic code. A reverted call leaves the contract's storage as it was, so
  an operation returns either the error or its result together with the new storage.
\<close>

datatype error = Revert string | Panic nat

text \<open>\<open>msg.sender\<close> and \<open>block.timestamp\<close> of the running call.\<close>

record env =
  msg_sender :: address
  block_timestamp :: uint256

text \<open>
  \<open>keccak256\<close> is a builtin of the virtual machine; every contract function below takes
  it as the parameter \<open>kec\<close>. \<open>abi.encodePacked\<close> of strings is the concatenation of
  their bytes.
\<close>

type_synonym keccak = "string \<Rightarrow> bytes32"

definition VERIFIER_ROLE :: "keccak \<Rightarrow> bytes32" where
  "VERIFIER_ROLE kec = kec ''VERIFIER_ROLE''"

definition ISSUER_ROLE :: "keccak \<Rightarrow> bytes32" where
  "ISSUER_ROLE kec = kec ''ISSUER_ROLE''"

section \<open>Storage of the contracts\<close>

record Credential =
  isRegistered :: bool
  isRevoked :: bool
  registeredAt :: uint256
  revokedAt :: uint256
  registeredBy :: address
  revokedBy :: address
  metadataURI :: string

record Schema =
  schemaURI :: string
  isRegistered :: bool
  registeredAt :: uint256
  updatedAt :: uint256
  registeredBy :: address
  updatedBy :: address
  version :: uint256

datatype AccessLevel = ReadOnly | ReadWrite | FullAccess | OneTime

record ConsentRecord =
  isRegistered :: bool
  isRevoked :: bool
  registeredAt :: uint256
  revokedAt :: uint256
  registeredBy :: address
  revokedBy :: address
  expiresAt :: uint256
  purpose :: string
  dataCategories :: string
  accessLevel :: AccessLevel

datatype event =
    RoleGranted bytes32 address address
  | RoleRevoked bytes32 address address
  | OwnershipTransferred address address
  | CredentialRegistered bytes32 string address uint256
  | CredentialRevoked bytes32 string address uint256
  | SchemaRegistered string string address uint256
  | SchemaUpdated string string address uint256 uint256
  | ConsentGranted string string string address uint256
  | ConsentRevoked string string string address uint256
  | RegistryCreated address string string address address

text \<open>
  \<open>SSIRegistry\<close> inherits \<open>CredentialRegistry\<close>, \<open>SchemaRegistry\<close> and
  \<open>ConsentRegistry\<close>, which all inherit the one \<open>AccessControl\<close>: a deployed registry
  has one copy of each storage variable. A Solidity mapping is total, every key holding
  the zero value until it is written. The field \<open>events\<close> is the log of emitted events,
  oldest first.
\<close>

record SSIRegistry =
  roles :: "bytes32 \<Rightarrow> address \<Rightarrow> bool"
  owner :: address
  credentials :: "bytes32 \<Rightarrow> Credential"
  schemas :: "string \<Rightarrow> Schema"
  schemaIds :: "string list"
  consents :: "bytes32 \<Rightarrow> ConsentRecord"
  name :: string
  description :: string
  didRegistry :: address
  events :: "event list"

definition zero_Credential :: Credential where
  "zero_Credential =
     \<lparr>Credential.isRegistered = False, isRevoked = False, registeredAt = 0, revokedAt = 0,
      registeredBy = 0, revokedBy = 0, metadataURI = []\<rparr>"

definition zero_Schema :: Schema where
  "zero_Schema =
     \<lparr>schemaURI = [], isRegistered = False, registeredAt = 0, updatedAt = 0,
      registeredBy = 0, updatedBy = 0, version = 0\<rparr>"

definition zero_ConsentRecord :: ConsentRecord where
  "zero_ConsentRecord =
     \<lparr>ConsentRecord.isRegistered = False, isRevoked = False, registeredAt = 0, revokedAt = 0,
      registeredBy = 0, revokedBy = 0, expiresAt = 0, purpose = [], dataCategories = [],
      accessLevel = ReadOnly\<rparr>"

definition zero_storage :: SSIRegistry where
  "zero_storage =
     \<lparr>roles = (\<lambda>_ _. False), owner = 0, credentials = (\<lambda>_. zero_Credential),
      schemas = (\<lambda>_. zero_Schema), schemaIds = [], consents = (\<lambda>_. zero_ConsentRecord),
      name = [], description = [], didRegistry = 0, events = []\<rparr>"

definition require :: "bool \<Rightarrow> string \<Rightarrow> error + 'a \<Rightarrow> error + 'a" where
  "require c msg body = (if c then body else Inl (Revert msg))"

definition emit :: "event \<Rightarrow> SSIRegistry \<Rightarrow> SSIRegistry" where
  "emit ev s = s\<lparr>events := events s @ [ev]\<rparr>"

section \<open>AccessControl\<close>

definition hasRole :: "SSIRegistry \<Rightarrow> bytes32 \<Rightarrow> address \<Rightarrow> bool" where
  "hasRole s role account = roles s role account"

definition onlyRole :: "SSIRegistry \<Rightarrow> env \<Rightarrow> bytes32 \<Rightarrow> error + 'a \<Rightarrow> error + 'a" where
  "onlyRole s e role body =
     require (hasRole s role (msg_sender e)) ''AccessControl: missing role'' body"

definition onlyOwner :: "SSIRegistry \<Rightarrow> env \<Rightarrow> error + 'a \<Rightarrow> error + 'a" where
  "onlyOwner s e body = require (msg_sender e = owner s) ''AccessControl: not owner'' body"

definition grantRole_internal :: "SSIRegistry \<Rightarrow> env \<Rightarrow> bytes32 \<Rightarrow> address \<Rightarrow> SSIRegistry" where
  "grantRole_internal s e role account =
     (if \<not> hasRole s role account
      then emit (RoleGranted role account (msg_sender e))
             (s\<lparr>roles := (roles s)(role := (roles s role)(account := True))\<rparr>)
      else s)"

definition revokeRole_internal :: "SSIRegistry \<Rightarrow> env \<Rightarrow> bytes32 \<Rightarrow> address \<Rightarrow> SSIRegistry" where
  "revokeRole_internal s e role account =
     (if hasRole s role account
      then emit (RoleRevoked role account (msg_sender e))
             (s\<lparr>roles := (roles s)(role := (roles s role)(account := False))\<rparr>)
      else s)"

definition AccessControl_constructor :: "keccak \<Rightarrow> env \<Rightarrow> SSIRegistry \<Rightarrow> SSIRegistry" where
  "AccessControl_constructor kec e s =
     emit (OwnershipTransferred 0 (msg_sender e))
       (grantRole_internal (s\<lparr>owner := msg_sender e\<rparr>) e (VERIFIER_ROLE kec) (msg_sender e))"

definition transferOwnership :: "SSIRegistry \<Rightarrow> env \<Rightarrow> address \<Rightarrow> error + SSIRegistry" where
  "transferOwnership s e newOwner =
     onlyOwner s e
       (require (newOwner \<noteq> 0) ''AccessControl: zero address''
          (Inr ((emit (OwnershipTransferred (owner s) newOwner) s)\<lparr>owner := newOwner\<rparr>)))"

definition grantRole :: "keccak \<Rightarrow> SSIRegistry \<Rightarrow> env \<Rightarrow> bytes32 \<Rightarrow> address \<Rightarrow> error + SSIRegistry" where
  "grantRole kec s e role account =
     onlyRole s e (VERIFIER_ROLE kec) (Inr (grantRole_internal s e role account))"

definition revokeRole :: "keccak \<Rightarrow> SSIRegistry \<Rightarrow> env \<Rightarrow> bytes32 \<Rightarrow> address \<Rightarrow> error + SSIRegistry" where
  "revokeRole kec s e role account =
     onlyRole s e (VERIFIER_ROLE kec) (Inr (revokeRole_internal s e role account))"

section \<open>CredentialRegistry\<close>

definition generateCredentialId :: "keccak \<Rightarrow> string \<Rightarrow> string \<Rightarrow> bytes32" where
  "generateCredentialId kec did credentialHash = kec (did @ credentialHash)"

definition registerCredential ::
  "keccak \<Rightarrow> SSIRegistry \<Rightarrow> env \<Rightarrow> string \<Rightarrow> string \<Rightarrow> string \<Rightarrow> error + (bytes32 \<times> SSIRegistry)" where
  "registerCredential kec s e did credentialHash uri =
     onlyRole s e (ISSUER_ROLE kec)
       (require (length did > 0) ''Empty DID''
       (require (length credentialHash > 0) ''Empty hash''
       (let credentialId = generateCredentialId kec did credentialHash in
        require (\<not> Credential.isRegistered (credentials s credentialId)) ''Already registered''
          (Inr (credentialId,
             emit (CredentialRegistered credentialId did (msg_sender e) (block_timestamp e))
               (s\<lparr>credentials := (credentials s)(credentialId :=
                    \<lparr>Credential.isRegistered = True,
                     isRevoked = False,
                     registeredAt = block_timestamp e,
                     revokedAt = 0,
                     registeredBy = msg_sender e,
                     revokedBy = 0,
                     metadataURI = uri\<rparr>)\<rparr>))))))"

definition revokeCredential ::
  "keccak \<Rightarrow> SSIRegistry \<Rightarrow> env \<Rightarrow> string \<Rightarrow> string \<Rightarrow> error + (bool \<times> SSIRegistry)" where
  "revokeCredential kec s e did credentialHash =
     onlyRole s e (ISSUER_ROLE kec)
       (let credentialId = generateCredentialId kec did credentialHash in
        require (Credential.isRegistered (credentials s credentialId)) ''Not registered''
       (require (\<not> Credential.isRevoked (credentials s credentialId)) ''Already revoked''
       (require (Credential.registeredBy (credentials s credentialId) = msg_sender e \<or>
                 hasRole s (VERIFIER_ROLE kec) (msg_sender e)) ''Unauthorized''
          (Inr (True,
             emit (CredentialRevoked credentialId did (msg_sender e) (block_timestamp e))
               (s\<lparr>credentials := (credentials s)(credentialId :=
                    (credentials s credentialId)
                      \<lparr>Credential.isRevoked := True,
                       Credential.revokedAt := block_timestamp e,
                       Credential.revokedBy := msg_sender e\<rparr>)\<rparr>))))))"

definition isCredentialValid :: "keccak \<Rightarrow> SSIRegistry \<Rightarrow> string \<Rightarrow> string \<Rightarrow> bool" where
  "isCredentialValid kec s did credentialHash =
     (let credentialId = generateCredentialId kec did credentialHash in
      Credential.isRegistered (credentials s credentialId) \<and>
      \<not> Credential.isRevoked (credentials s credentialId))"

definition getCredentialInfo :: "keccak \<Rightarrow> SSIRegistry \<Rightarrow> string \<Rightarrow> string \<Rightarrow> Credential" where
  "getCredentialInfo kec s did credentialHash =
     credentials s (generateCredentialId kec did credentialHash)"

section \<open>SchemaRegistry\<close>

text \<open>
  \<open>version += 1\<close> is checked arithmetic: at the largest \<open>uint256\<close> it reverts with
  panic code \<open>0x11\<close>.
\<close>

definition updateSchema_internal ::
  "keccak \<Rightarrow> SSIRegistry \<Rightarrow> env \<Rightarrow> string \<Rightarrow> string \<Rightarrow> error + (bool \<times> SSIRegistry)" where
  "updateSchema_internal kec s e schemaId uri =
     require (Schema.registeredBy (schemas s schemaId) = msg_sender e \<or>
              hasRole s (VERIFIER_ROLE kec) (msg_sender e)) ''Unauthorized''
       (if version (schemas s schemaId) = - 1 then Inl (Panic 17)
        else
          (let rec = (schemas s schemaId)
                 \<lparr>schemaURI := uri,
                  updatedAt := block_timestamp e,
                  updatedBy := msg_sender e,
                  version := version (schemas s schemaId) + 1\<rparr>
           in Inr (True,
                emit (SchemaUpdated schemaId uri (msg_sender e) (block_timestamp e) (version rec))
                  (s\<lparr>schemas := (schemas s)(schemaId := rec)\<rparr>))))"

definition registerSchema ::
  "keccak \<Rightarrow> SSIRegistry \<Rightarrow> env \<Rightarrow> string \<Rightarrow> string \<Rightarrow> error + (bool \<times> SSIRegistry)" where
  "registerSchema kec s e schemaId uri =
     onlyRole s e (ISSUER_ROLE kec)
       (require (length schemaId > 0) ''Empty schema ID''
       (require (length uri > 0) ''Empty schema URI''
          (if Schema.isRegistered (schemas s schemaId)
           then updateSchema_internal kec s e schemaId uri
           else Inr (True,
                  emit (SchemaRegistered schemaId uri (msg_sender e) (block_timestamp e))
                    (s\<lparr>schemas := (schemas s)(schemaId :=
                          \<lparr>schemaURI = uri,
                           isRegistered = True,
                           registeredAt = block_timestamp e,
                           updatedAt = block_timestamp e,
                           registeredBy = msg_sender e,
                           updatedBy = msg_sender e,
                           version = 1\<rparr>),
                       schemaIds := schemaIds s @ [schemaId]\<rparr>)))))"

definition getSchemaURI :: "SSIRegistry \<Rightarrow> string \<Rightarrow> error + string" where
  "getSchemaURI s schemaId =
     require (Schema.isRegistered (schemas s schemaId)) ''Schema not found''
       (Inr (schemaURI (schemas s schemaId)))"

definition isSchemaRegistered :: "SSIRegistry \<Rightarrow> string \<Rightarrow> bool" where
  "isSchemaRegistered s schemaId = Schema.isRegistered (schemas s schemaId)"

definition getSchemaCount :: "SSIRegistry \<Rightarrow> nat" where
  "getSchemaCount s = length (schemaIds s)"

definition getSchemaIdByIndex :: "SSIRegistry \<Rightarrow> nat \<Rightarrow> error + string" where
  "getSchemaIdByIndex s index =
     require (index < length (schemaIds s)) ''Index out of bounds'' (Inr (schemaIds s ! index))"

section \<open>ConsentRegistry\<close>

definition generateConsentKey :: "keccak \<Rightarrow> string \<Rightarrow> string \<Rightarrow> string \<Rightarrow> bytes32" where
  "generateConsentKey kec userDid verifierDid purp = kec (userDid @ verifierDid @ purp)"

definition grantConsent ::
  "keccak \<Rightarrow> SSIRegistry \<Rightarrow> env \<Rightarrow> string \<Rightarrow> string \<Rightarrow> string \<Rightarrow> string \<Rightarrow> AccessLevel \<Rightarrow> uint256
     \<Rightarrow> error + (bool \<times> SSIRegistry)" where
  "grantConsent kec s e userDid verifierDid purp cats level expires =
     require (length userDid > 0) ''Empty user DID''
    (require (length verifierDid > 0) ''Empty verifier DID''
    (require (length purp > 0) ''Empty purpose''
    (let key = generateConsentKey kec userDid verifierDid purp;
         c0 = consents s key;
         c1 = (if ConsentRecord.isRegistered c0 \<and> ConsentRecord.isRevoked c0
               then c0\<lparr>ConsentRecord.isRevoked := False,
                       ConsentRecord.revokedAt := 0,
                       ConsentRecord.revokedBy := 0\<rparr>
               else c0);
         c2 = c1\<lparr>ConsentRecord.isRegistered := True,
                  ConsentRecord.registeredAt := block_timestamp e,
                  ConsentRecord.registeredBy := msg_sender e,
                  expiresAt := expires,
                  purpose := purp,
                  dataCategories := cats,
                  accessLevel := level\<rparr>
     in Inr (True,
          emit (ConsentGranted userDid verifierDid purp (msg_sender e) (block_timestamp e))
            (s\<lparr>consents := (consents s)(key := c2)\<rparr>)))))"

definition revokeConsent ::
  "keccak \<Rightarrow> SSIRegistry \<Rightarrow> env \<Rightarrow> string \<Rightarrow> string \<Rightarrow> string \<Rightarrow> error + (bool \<times> SSIRegistry)" where
  "revokeConsent kec s e userDid verifierDid purp =
     (let key = generateConsentKey kec userDid verifierDid purp in
      require (ConsentRecord.isRegistered (consents s key)) ''Consent not found''
     (require (\<not> ConsentRecord.isRevoked (consents s key)) ''Already revoked''
        (Inr (True,
           emit (ConsentRevoked userDid verifierDid purp (msg_sender e) (block_timestamp e))
             (s\<lparr>consents := (consents s)(key :=
                  (consents s key)
                    \<lparr>ConsentRecord.isRevoked := True,
                     ConsentRecord.revokedAt := block_timestamp e,
                     ConsentRecord.revokedBy := msg_sender e\<rparr>)\<rparr>)))))"

text \<open>A view function reads \<open>block.timestamp\<close> of the call that evaluates it.\<close>

definition isConsentValid :: "keccak \<Rightarrow> SSIRegistry \<Rightarrow> env \<Rightarrow> string \<Rightarrow> string \<Rightarrow> string \<Rightarrow> bool" where
  "isConsentValid kec s e userDid verifierDid purp =
     (let key = generateConsentKey kec userDid verifierDid purp in
      if \<not> ConsentRecord.isRegistered (consents s key) \<or> ConsentRecord.isRevoked (consents s key)
      then False
      else if expiresAt (consents s key) > 0 \<and> block_timestamp e > expiresAt (consents s key)
      then False
      else True)"

section \<open>SSIRegistry\<close>

definition SSIRegistry_constructor :: "keccak \<Rightarrow> env \<Rightarrow> string \<Rightarrow> string \<Rightarrow> address \<Rightarrow> SSIRegistry" where
  "SSIRegistry_constructor kec e nm descr did =
     (AccessControl_constructor kec e zero_storage)
       \<lparr>name := nm, description := descr, didRegistry := did\<rparr>"

definition addIssuer :: "keccak \<Rightarrow> SSIRegistry \<Rightarrow> env \<Rightarrow> address \<Rightarrow> error + SSIRegistry" where
  "addIssuer kec s e issuer =
     onlyRole s e (VERIFIER_ROLE kec) (grantRole kec s e (ISSUER_ROLE kec) issuer)"

definition removeIssuer :: "keccak \<Rightarrow> SSIRegistry \<Rightarrow> env \<Rightarrow> address \<Rightarrow> error + SSIRegistry" where
  "removeIssuer kec s e issuer =
     onlyRole s e (VERIFIER_ROLE kec) (revokeRole kec s e (ISSUER_ROLE kec) issuer)"

definition isIssuer :: "keccak \<Rightarrow> SSIRegistry \<Rightarrow> address \<Rightarrow> bool" where
  "isIssuer kec s issuer = hasRole s (ISSUER_ROLE kec) issuer"

definition addVerifier :: "keccak \<Rightarrow> SSIRegistry \<Rightarrow> env \<Rightarrow> address \<Rightarrow> error + SSIRegistry" where
  "addVerifier kec s e verifier =
     onlyRole s e (VERIFIER_ROLE kec) (grantRole kec s e (VERIFIER_ROLE kec) verifier)"

definition removeVerifier :: "keccak \<Rightarrow> SSIRegistry \<Rightarrow> env \<Rightarrow> address \<Rightarrow> error + SSIRegistry" where
  "removeVerifier kec s e verifier =
     onlyRole s e (VERIFIER_ROLE kec) (revokeRole kec s e (VERIFIER_ROLE kec) verifier)"

definition isVerifier :: "keccak \<Rightarrow> SSIRegistry \<Rightarrow> address \<Rightarrow> bool" where
  "isVerifier kec s verifier = hasRole s (VERIFIER_ROLE kec) verifier"

definition updateMetadata :: "SSIRegistry \<Rightarrow> env \<Rightarrow> string \<Rightarrow> string \<Rightarrow> error + SSIRegistry" where
  "updateMetadata s e nm descr = onlyOwner s e (Inr (s\<lparr>name := nm, description := descr\<rparr>))"

subsection \<open>Transactions\<close>

text \<open>
  The state-changing external functions of a deployed \<open>SSIRegistry\<close>. A transaction is
  a call together with its environment; one that reverts leaves the storage unchanged.
\<close>

datatype call =
    TransferOwnership address
  | GrantRole bytes32 address
  | RevokeRole bytes32 address
  | RegisterCredential string string string
  | RevokeCredential string string
  | RegisterSchema string string
  | GrantConsent string string string string AccessLevel uint256
  | RevokeConsent string string string
  | AddIssuer address
  | RemoveIssuer address
  | AddVerifier address
  | RemoveVerifier address
  | UpdateMetadata string string

fun exec :: "keccak \<Rightarrow> SSIRegistry \<Rightarrow> env \<Rightarrow> call \<Rightarrow> error + SSIRegistry" where
  "exec kec s e (TransferOwnership a) = transferOwnership s e a"
| "exec kec s e (GrantRole r a) = grantRole kec s e r a"
| "exec kec s e (RevokeRole r a) = revokeRole kec s e r a"
| "exec kec s e (RegisterCredential d h u) = map_sum id snd (registerCredential kec s e d h u)"
| "exec kec s e (RevokeCredential d h) = map_sum id snd (revokeCredential kec s e d h)"
| "exec kec s e (RegisterSchema i u) = map_sum id snd (registerSchema kec s e i u)"
| "exec kec s e (GrantConsent u v p c l x) = map_sum id snd (grantConsent kec s e u v p c l x)"
| "exec kec s e (RevokeConsent u v p) = map_sum id snd (revokeConsent kec s e u v p)"
| "exec kec s e (AddIssuer a) = addIssuer kec s e a"
| "exec kec s e (RemoveIssuer a) = removeIssuer kec s e a"
| "exec kec s e (AddVerifier a) = addVerifier kec s e a"
| "exec kec s e (RemoveVerifier a) = removeVerifier kec s e a"
| "exec kec s e (UpdateMetadata n d) = updateMetadata s e n d"

definition transact :: "keccak \<Rightarrow> SSIRegistry \<Rightarrow> env \<times> call \<Rightarrow> SSIRegistry" where
  "transact kec s tx = (case exec kec s (fst tx) (snd tx) of Inl _ \<Rightarrow> s | Inr s' \<Rightarrow> s')"

fun run :: "keccak \<Rightarrow> SSIRegistry \<Rightarrow> (env \<times> call) list \<Rightarrow> SSIRegistry" where
  "run kec s [] = s"
| "run kec s (tx # txs) = run kec (transact kec s tx) txs"

section \<open>SSIRegistryFactory\<close>

text \<open>
  The factory's storage. \<open>createRegistry\<close> deploys a new \<open>SSIRegistry\<close>: inside that
  deployment and inside the \<open>transferOwnership\<close> call that follows, \<open>msg.sender\<close> is the
  factory's own address \<open>this\<close>. The address \<open>fresh\<close> the new contract receives is chosen
  by the virtual machine. The result is that address, the storage of the new registry and
  the factory's storage.
\<close>

record SSIRegistryFactory =
  registries :: "address list"
  didRegistry :: address
  factory_events :: "event list"

definition createRegistry ::
  "keccak \<Rightarrow> address \<Rightarrow> address \<Rightarrow> SSIRegistryFactory \<Rightarrow> env \<Rightarrow> string \<Rightarrow> string
     \<Rightarrow> error + (address \<times> SSIRegistry \<times> SSIRegistryFactory)" where
  "createRegistry kec this fresh f e nm descr =
     (let inner = e\<lparr>msg_sender := this\<rparr>;
          registry = SSIRegistry_constructor kec inner nm descr (SSIRegistryFactory.didRegistry f)
      in case transferOwnership registry inner (msg_sender e) of
           Inl err \<Rightarrow> Inl err
         | Inr registry' \<Rightarrow>
             Inr (fresh, registry',
                  f\<lparr>registries := registries f @ [fresh],
                    factory_events := factory_events f @
                      [RegistryCreated fresh nm descr (msg_sender e)
                         (SSIRegistryFactory.didRegistry f)]\<rparr>))"

definition getRegistryCount :: "SSIRegistryFactory \<Rightarrow> nat" where
  "getRegistryCount f = length (registries f)"

definition getRegistryByIndex :: "SSIRegistryFactory \<Rightarrow> nat \<Rightarrow> error + address" where
  "getRegistryByIndex f index =
     require (index < length (registries f)) ''Index out of bounds'' (Inr (registries f ! index))"

section \<open>Reachable storage, traces and a concrete hash\<close>

text \<open>
  The storage a deployed registry can ever hold: what the constructor leaves, followed by
  any number of successful calls, each by any sender at any time.
\<close>

inductive reachable :: "keccak \<Rightarrow> SSIRegistry \<Rightarrow> bool" for kec :: keccak where
  deployed: "reachable kec (SSIRegistry_constructor kec e nm descr did)"
| called: "reachable kec s \<Longrightarrow> exec kec s e c = Inr s' \<Longrightarrow> reachable kec s'"

text \<open>
  The successful writes to one schema identifier along a list of transactions: the URIs
  of the \<open>registerSchema\<close> calls on that identifier that did not revert, oldest first.
\<close>

definition schema_write :: "keccak \<Rightarrow> SSIRegistry \<Rightarrow> env \<times> call \<Rightarrow> string \<Rightarrow> string list" where
  "schema_write kec s tx sid =
     (case snd tx of
        RegisterSchema i u \<Rightarrow>
          (if i = sid \<and> \<not> isl (exec kec s (fst tx) (snd tx)) then [u] else [])
      | _ \<Rightarrow> [])"

fun schema_writes :: "keccak \<Rightarrow> SSIRegistry \<Rightarrow> (env \<times> call) list \<Rightarrow> string \<Rightarrow> string list" where
  "schema_writes kec s [] sid = []"
| "schema_writes kec s (tx # txs) sid =
     schema_write kec s tx sid @ schema_writes kec (transact kec s tx) txs sid"

text \<open>
  Every result below holds for each hash function. Where a concrete run is evaluated, the
  hash is instantiated with the length of the input, which tells the two role names
  apart (13 and 11 characters), as \<open>keccak256\<close> does.
\<close>

definition length_hash :: keccak where
  "length_hash str = word_of_nat (length str)"

text \<open>
  Concrete storage for the evaluated runs: account 1 deploys the registry and makes
  account 2 an issuer; account 2 registers a credential and later revokes it.
\<close>

abbreviation call_by :: "address \<Rightarrow> uint256 \<Rightarrow> env" where
  "call_by a t \<equiv> \<lparr>msg_sender = a, block_timestamp = t\<rparr>"

abbreviation fresh_registry :: SSIRegistry where
  "fresh_registry \<equiv> SSIRegistry_constructor length_hash (call_by 1 100) ''registry'' ''demo'' 9"

abbreviation registry_with_issuer :: SSIRegistry where
  "registry_with_issuer \<equiv> run length_hash fresh_registry [(call_by 1 110, AddIssuer 2)]"

abbreviation registry_with_credential :: SSIRegistry where
  "registry_with_credential \<equiv> run length_hash fresh_registry
     [(call_by 1 110, AddIssuer 2),
      (call_by 2 120, RegisterCredential ''did:a'' ''h1'' ''ipfs://m'')]"


section \<open>Facts about single calls and runs\<close>

lemmas guards = require_def onlyRole_def onlyOwner_def hasRole_def emit_def

lemmas ops = transferOwnership_def grantRole_def revokeRole_def grantRole_internal_def
  revokeRole_internal_def registerCredential_def revokeCredential_def updateSchema_internal_def
  registerSchema_def grantConsent_def revokeConsent_def addIssuer_def removeIssuer_def
  addVerifier_def removeVerifier_def updateMetadata_def

lemmas evals = ops guards SSIRegistry_constructor_def AccessControl_constructor_def
  zero_storage_def zero_Credential_def zero_Schema_def zero_ConsentRecord_def
  VERIFIER_ROLE_def ISSUER_ROLE_def length_hash_def generateCredentialId_def
  generateConsentKey_def isCredentialValid_def isConsentValid_def transact_def Let_def

lemma exec_cred_isRegistered:
  "exec kec s e c = Inr s' \<Longrightarrow> Credential.isRegistered (credentials s i) \<Longrightarrow>
     Credential.isRegistered (credentials s' i)"
  by (cases c) (auto simp: ops guards Let_def split: if_splits)


lemma exec_cred_inv:
  "exec kec s e c = Inr s' \<Longrightarrow>
   (Credential.isRevoked (credentials s i) \<longrightarrow> Credential.isRegistered (credentials s i)) \<Longrightarrow>
   (Credential.isRevoked (credentials s' i) \<longrightarrow> Credential.isRegistered (credentials s' i))"
  by (cases c) (auto simp: ops guards Let_def split: if_splits)

lemma exec_consent_inv:
  "exec kec s e c = Inr s' \<Longrightarrow>
   (ConsentRecord.isRevoked (consents s k) \<longrightarrow> ConsentRecord.isRegistered (consents s k)) \<Longrightarrow>
   (ConsentRecord.isRevoked (consents s' k) \<longrightarrow> ConsentRecord.isRegistered (consents s' k))"
  by (cases c) (auto simp: ops guards Let_def split: if_splits)

lemma exec_schema_inv:
  "exec kec s e c = Inr s' \<Longrightarrow>
   (\<not> Schema.isRegistered (schemas s i) \<longrightarrow> version (schemas s i) = 0) \<Longrightarrow>
   (\<not> Schema.isRegistered (schemas s' i) \<longrightarrow> version (schemas s' i) = 0)"
  by (cases c) (auto simp: ops guards Let_def split: if_splits)

lemma exec_roles_frozen:
  "exec kec s e c = Inr s' \<Longrightarrow> \<not> hasRole s (VERIFIER_ROLE kec) (msg_sender e) \<Longrightarrow>
     roles s' = roles s"
  by (cases c) (auto simp: ops guards Let_def split: if_splits)

lemma exec_schema_other:
  "exec kec s e c = Inr s' \<Longrightarrow> (\<forall>u. c \<noteq> RegisterSchema sid u) \<Longrightarrow> schemas s' sid = schemas s sid"
  by (cases c) (auto simp: ops guards Let_def split: if_splits)

lemma constructor_fields:
  "credentials (SSIRegistry_constructor kec e nm descr did) = (\<lambda>_. zero_Credential)"
  "schemas (SSIRegistry_constructor kec e nm descr did) = (\<lambda>_. zero_Schema)"
  "consents (SSIRegistry_constructor kec e nm descr did) = (\<lambda>_. zero_ConsentRecord)"
  "owner (SSIRegistry_constructor kec e nm descr did) = msg_sender e"
  "roles (SSIRegistry_constructor kec e nm descr did) =
     (\<lambda>r a. r = VERIFIER_ROLE kec \<and> a = msg_sender e)"
  by (auto simp: SSIRegistry_constructor_def AccessControl_constructor_def grantRole_internal_def
      zero_storage_def guards fun_eq_iff)

lemma reachable_inv:
  assumes "reachable kec s"
  shows "(Credential.isRevoked (credentials s i) \<longrightarrow> Credential.isRegistered (credentials s i))"
    and "(ConsentRecord.isRevoked (consents s k) \<longrightarrow> ConsentRecord.isRegistered (consents s k))"
    and "(\<not> Schema.isRegistered (schemas s j) \<longrightarrow> version (schemas s j) = 0)"
  using assms
proof (induction rule: reachable.induct)
  case (deployed e nm descr did)
  {
    case 1 show ?case by (simp add: constructor_fields zero_Credential_def)
  next
    case 2 show ?case by (simp add: constructor_fields zero_ConsentRecord_def)
  next
    case 3 show ?case by (simp add: constructor_fields zero_Schema_def)
  }
next
  case (called s e c s')
  {
    case 1 show ?case using called.hyps(2) called.IH(1) by (rule exec_cred_inv)
  next
    case 2 show ?case using called.hyps(2) called.IH(2) by (rule exec_consent_inv)
  next
    case 3 show ?case using called.hyps(2) called.IH(3) by (rule exec_schema_inv)
  }
qed

lemma exec_consent_cleared:
  "exec kec s e c = Inr s' \<Longrightarrow>
   (\<not> ConsentRecord.isRevoked (consents s k) \<longrightarrow>
      ConsentRecord.revokedAt (consents s k) = 0 \<and> ConsentRecord.revokedBy (consents s k) = 0) \<Longrightarrow>
   (\<not> ConsentRecord.isRevoked (consents s' k) \<longrightarrow>
      ConsentRecord.revokedAt (consents s' k) = 0 \<and> ConsentRecord.revokedBy (consents s' k) = 0)"
  by (cases c) (auto simp: ops guards Let_def split: if_splits)

lemma reachable_consent_cleared:
  assumes "reachable kec s"
  shows "\<not> ConsentRecord.isRevoked (consents s k) \<longrightarrow>
      ConsentRecord.revokedAt (consents s k) = 0 \<and> ConsentRecord.revokedBy (consents s k) = 0"
  using assms
proof (induction rule: reachable.induct)
  case (deployed e nm descr did)
  show ?case by (simp add: constructor_fields zero_ConsentRecord_def)
next
  case (called s e c s')
  show ?case using called.hyps(2) called.IH by (rule exec_consent_cleared)
qed

lemma transact_cases:
  "transact kec s tx = s \<or> exec kec s (fst tx) (snd tx) = Inr (transact kec s tx)"
  by (simp add: transact_def split: sum.split)



lemma run_cred_isRegistered:
  "Credential.isRegistered (credentials s i) \<Longrightarrow>
     Credential.isRegistered (credentials (run kec s txs) i)"
proof (induction txs arbitrary: s)
  case Nil
  then show ?case by simp
next
  case (Cons tx txs)
  have "Credential.isRegistered (credentials (transact kec s tx) i)"
    using transact_cases [of kec s tx] Cons.prems by (auto dest: exec_cred_isRegistered)
  then show ?case using Cons.IH by simp
qed


lemma run_roles_frozen:
  assumes "\<forall>a. hasRole s (VERIFIER_ROLE kec) a \<longrightarrow> a = this"
    and "\<forall>tx \<in> set txs. msg_sender (fst tx) \<noteq> this"
  shows "roles (run kec s txs) = roles s"
  using assms
proof (induction txs arbitrary: s)
  case Nil
  then show ?case by simp
next
  case (Cons tx txs)
  have nv: "\<not> hasRole s (VERIFIER_ROLE kec) (msg_sender (fst tx))"
    using Cons.prems by auto
  have eq: "roles (transact kec s tx) = roles s"
    using transact_cases [of kec s tx] exec_roles_frozen [OF _ nv] by auto
  then have "\<forall>a. hasRole (transact kec s tx) (VERIFIER_ROLE kec) a \<longrightarrow> a = this"
    using Cons.prems(1) by (simp add: hasRole_def)
  then have "roles (run kec (transact kec s tx) txs) = roles (transact kec s tx)"
    using Cons.prems(2) by (intro Cons.IH) auto
  then show ?case using eq by simp
qed

lemma unat_inc: "(v :: uint256) \<noteq> - 1 \<Longrightarrow> unat (v + 1) = unat v + 1"
  by (metis Suc_eq_plus1 add.commute add_eq_0_iff2 unatSuc)

lemma registerSchema_step:
  assumes "registerSchema kec s e sid uri = Inr (b, s')"
    and "\<not> Schema.isRegistered (schemas s sid) \<longrightarrow> version (schemas s sid) = 0"
  shows "unat (version (schemas s' sid)) = unat (version (schemas s sid)) + 1"
    and "schemaURI (schemas s' sid) = uri"
    and "Schema.isRegistered (schemas s' sid)"
    and "\<not> Schema.isRegistered (schemas s sid) \<longrightarrow> version (schemas s' sid) = 1"
  using assms
  by (auto simp: registerSchema_def updateSchema_internal_def guards Let_def unat_inc
      split: if_splits)

lemma map_sum_snd_Inr: "map_sum id snd r = Inr s' \<Longrightarrow> \<exists>b. r = Inr (b, s')"
  by (cases r) auto

lemma transact_schema_inv:
  assumes "\<not> Schema.isRegistered (schemas s sid) \<longrightarrow> version (schemas s sid) = 0"
  shows "\<not> Schema.isRegistered (schemas (transact kec s tx) sid) \<longrightarrow>
           version (schemas (transact kec s tx) sid) = 0"
  using transact_cases [of kec s tx] assms exec_schema_inv [of kec s "fst tx" "snd tx"]
  by auto

lemma transact_schema:
  assumes "\<not> Schema.isRegistered (schemas s sid) \<longrightarrow> version (schemas s sid) = 0"
  shows "(schema_write kec s tx sid = [] \<longrightarrow> schemas (transact kec s tx) sid = schemas s sid) \<and>
     (schema_write kec s tx sid \<noteq> [] \<longrightarrow>
           Schema.isRegistered (schemas (transact kec s tx) sid) \<and>
           schemaURI (schemas (transact kec s tx) sid) = last (schema_write kec s tx sid)) \<and>
     unat (version (schemas (transact kec s tx) sid)) =
           unat (version (schemas s sid)) + length (schema_write kec s tx sid)"
proof (cases "exec kec s (fst tx) (snd tx)")
  case (Inl err)
  have t: "transact kec s tx = s" using Inl by (simp add: transact_def)
  have w: "schema_write kec s tx sid = []"
    unfolding schema_write_def Inl by (simp split: call.split)
  show ?thesis by (simp add: t w)
next
  case (Inr s')
  have t: "transact kec s tx = s'" using Inr by (simp add: transact_def)
  show ?thesis
  proof (cases "\<exists>u. snd tx = RegisterSchema sid u")
    case True
    then obtain u where u: "snd tx = RegisterSchema sid u" ..
    have "map_sum id snd (registerSchema kec s (fst tx) sid u) = Inr s'"
      using Inr by (simp add: u)
    then have "\<exists>b. registerSchema kec s (fst tx) sid u = Inr (b, s')"
      by (rule map_sum_snd_Inr)
    then obtain b where rs: "registerSchema kec s (fst tx) sid u = Inr (b, s')" ..
    have w: "schema_write kec s tx sid = [u]"
      using Inr by (simp add: schema_write_def u)
    note st = registerSchema_step [OF rs assms]
    show ?thesis using st(1,2,3) by (simp add: t w)
  next
    case False
    then have nw: "\<forall>u. snd tx \<noteq> RegisterSchema sid u" by simp
    have w: "schema_write kec s tx sid = []"
      using nw by (simp add: schema_write_def split: call.split)
    have "schemas s' sid = schemas s sid"
      using Inr nw by (rule exec_schema_other)
    then show ?thesis by (simp add: t w)
  qed
qed

lemma run_schema:
  assumes "\<not> Schema.isRegistered (schemas s sid) \<longrightarrow> version (schemas s sid) = 0"
  shows "unat (version (schemas (run kec s txs) sid)) =
           unat (version (schemas s sid)) + length (schema_writes kec s txs sid) \<and>
         (schema_writes kec s txs sid = [] \<longrightarrow> schemas (run kec s txs) sid = schemas s sid) \<and>
         (schema_writes kec s txs sid \<noteq> [] \<longrightarrow>
            Schema.isRegistered (schemas (run kec s txs) sid) \<and>
            schemaURI (schemas (run kec s txs) sid) = last (schema_writes kec s txs sid))"
  using assms
proof (induction txs arbitrary: s)
  case Nil
  then show ?case by simp
next
  case (Cons tx txs)
  let ?s' = "transact kec s tx"
  let ?w = "schema_write kec s tx sid"
  let ?ws = "schema_writes kec ?s' txs sid"
  note st = transact_schema [OF Cons.prems, of kec tx]
  note ih = Cons.IH [OF transact_schema_inv [OF Cons.prems, of kec tx]]
  have a: "unat (version (schemas (run kec ?s' txs) sid)) =
      unat (version (schemas s sid)) + length (?w @ ?ws)"
    using st ih by simp
  have b: "?w @ ?ws = [] \<longrightarrow> schemas (run kec ?s' txs) sid = schemas s sid"
    using st ih by simp
  have c: "?w @ ?ws \<noteq> [] \<longrightarrow>
            Schema.isRegistered (schemas (run kec ?s' txs) sid) \<and>
            schemaURI (schemas (run kec ?s' txs) sid) = last (?w @ ?ws)"
  proof (cases "?ws = []")
    case True
    then have "schemas (run kec ?s' txs) sid = schemas ?s' sid" using ih by simp
    then show ?thesis using st True by simp
  next
    case False
    then show ?thesis using ih by simp
  qed
  show ?case using a b c by simp
qed

section \<open>AccessControl: ownership and roles\<close>

text \<open>
  C9. \<open>transferOwnership(newOwner)\<close>, called by the current owner with a non-zero
  \<open>newOwner\<close>, succeeds, and the storage afterwards differs from the storage before
  only in the owner field (and in the event log, which gains the one
  \<open>OwnershipTransferred\<close> event): \<open>hasRole\<close> answers the same for every role and every
  account, so the previous owner keeps the roles it had and the new owner gains none.
\<close>

theorem transferOwnership_frame:
  assumes "msg_sender e = owner s" and "newOwner \<noteq> 0"
  shows "case transferOwnership s e newOwner of
           Inl _ \<Rightarrow> False
         | Inr s' \<Rightarrow>
             s' = s\<lparr>owner := newOwner,
                    events := events s @ [OwnershipTransferred (owner s) newOwner]\<rparr> \<and>
             (\<forall>role account. hasRole s' role account = hasRole s role account)"
  using assms by (simp add: transferOwnership_def guards)

theorem transferOwnership_frame_witness:
  "msg_sender (call_by 1 150) = owner fresh_registry \<and> (2 :: address) \<noteq> 0 \<and>
   (case transferOwnership fresh_registry (call_by 1 150) 2 of
      Inl _ \<Rightarrow> False
    | Inr s' \<Rightarrow>
        owner s' = 2 \<and> hasRole s' (VERIFIER_ROLE length_hash) 1 \<and>
        \<not> hasRole s' (VERIFIER_ROLE length_hash) 2 \<and> \<not> hasRole s' (ISSUER_ROLE length_hash) 2)"
  using transferOwnership_frame [of "call_by 1 150" fresh_registry 2]
  by (simp add: evals)

text \<open>
  C8. \<open>grantRole\<close> and \<open>revokeRole\<close> revert for a caller without the Verifier role.
  For a caller with it they never fail: when the membership already has the requested
  value the storage, event log included, is returned unchanged; otherwise the membership is
  set and exactly one event (\<open>RoleGranted\<close>, respectively \<open>RoleRevoked\<close>) is appended to
  the log. Hence repeating a successful call changes nothing more, as long as the caller
  still holds the Verifier role (a Verifier that revoked its own Verifier role is rejected
  the second time, like any other caller without the role).
\<close>

theorem grantRole_revokeRole_idempotent:
  "grantRole kec s e role account =
     (if \<not> hasRole s (VERIFIER_ROLE kec) (msg_sender e)
      then Inl (Revert ''AccessControl: missing role'')
      else if hasRole s role account then Inr s
      else Inr (s\<lparr>roles := (roles s)(role := (roles s role)(account := True)),
                  events := events s @ [RoleGranted role account (msg_sender e)]\<rparr>)) \<and>
   revokeRole kec s e role account =
     (if \<not> hasRole s (VERIFIER_ROLE kec) (msg_sender e)
      then Inl (Revert ''AccessControl: missing role'')
      else if \<not> hasRole s role account then Inr s
      else Inr (s\<lparr>roles := (roles s)(role := (roles s role)(account := False)),
                  events := events s @ [RoleRevoked role account (msg_sender e)]\<rparr>)) \<and>
   (\<forall>s'. grantRole kec s e role account = Inr s' \<longrightarrow>
      hasRole s' role account \<and> grantRole kec s' e role account = Inr s') \<and>
   (\<forall>s'. revokeRole kec s e role account = Inr s' \<longrightarrow>
      \<not> hasRole s' role account \<and>
      revokeRole kec s' e role account =
        (if hasRole s' (VERIFIER_ROLE kec) (msg_sender e) then Inr s'
         else Inl (Revert ''AccessControl: missing role'')))"
proof -
  have g: "grantRole kec s e role account =
     (if \<not> hasRole s (VERIFIER_ROLE kec) (msg_sender e)
      then Inl (Revert ''AccessControl: missing role'')
      else if hasRole s role account then Inr s
      else Inr (s\<lparr>roles := (roles s)(role := (roles s role)(account := True)),
                  events := events s @ [RoleGranted role account (msg_sender e)]\<rparr>))"
    by (simp add: grantRole_def grantRole_internal_def guards)
  have r: "revokeRole kec s e role account =
     (if \<not> hasRole s (VERIFIER_ROLE kec) (msg_sender e)
      then Inl (Revert ''AccessControl: missing role'')
      else if \<not> hasRole s role account then Inr s
      else Inr (s\<lparr>roles := (roles s)(role := (roles s role)(account := False)),
                  events := events s @ [RoleRevoked role account (msg_sender e)]\<rparr>))"
    by (simp add: revokeRole_def revokeRole_internal_def guards)
  have g2: "\<forall>s'. grantRole kec s e role account = Inr s' \<longrightarrow>
      hasRole s' role account \<and> grantRole kec s' e role account = Inr s'"
    by (auto simp: grantRole_def grantRole_internal_def guards split: if_splits)
  have r2: "\<forall>s'. revokeRole kec s e role account = Inr s' \<longrightarrow>
      \<not> hasRole s' role account \<and>
      revokeRole kec s' e role account =
        (if hasRole s' (VERIFIER_ROLE kec) (msg_sender e) then Inr s'
         else Inl (Revert ''AccessControl: missing role''))"
    by (auto simp: revokeRole_def revokeRole_internal_def guards split: if_splits)
  show ?thesis using g r g2 r2 by blast
qed

theorem grantRole_revokeRole_idempotent_witness:
  "grantRole length_hash fresh_registry (call_by 1 110) (ISSUER_ROLE length_hash) 2 =
     Inr registry_with_issuer \<and>
   events registry_with_issuer =
     events fresh_registry @ [RoleGranted (ISSUER_ROLE length_hash) 2 1] \<and>
   grantRole length_hash registry_with_issuer (call_by 1 115) (ISSUER_ROLE length_hash) 2 =
     Inr registry_with_issuer \<and>
   grantRole length_hash registry_with_issuer (call_by 2 115) (ISSUER_ROLE length_hash) 2 =
     Inl (Revert ''AccessControl: missing role'')"
  using grantRole_revokeRole_idempotent
          [of length_hash fresh_registry "call_by 1 110" "ISSUER_ROLE length_hash" 2]
        grantRole_revokeRole_idempotent
          [of length_hash registry_with_issuer "call_by 1 115" "ISSUER_ROLE length_hash" 2]
        grantRole_revokeRole_idempotent
          [of length_hash registry_with_issuer "call_by 2 115" "ISSUER_ROLE length_hash" 2]
  by (simp add: evals)

section \<open>CredentialRegistry: registration and revocation\<close>

text \<open>
  What \<open>revokeCredential\<close> does on a registered, non-revoked credential, in the order
  the code checks: the modifier \<open>onlyRole(ISSUER_ROLE)\<close> runs before the body, then the
  body asks for the original registrant or a holder of the Verifier role.
\<close>

lemma revokeCredential_outcome:
  assumes "Credential.isRegistered (credentials s (generateCredentialId kec did credentialHash))"
    and "\<not> Credential.isRevoked (credentials s (generateCredentialId kec did credentialHash))"
  shows "revokeCredential kec s e did credentialHash =
     (if \<not> hasRole s (ISSUER_ROLE kec) (msg_sender e)
      then Inl (Revert ''AccessControl: missing role'')
      else if Credential.registeredBy (credentials s (generateCredentialId kec did credentialHash))
                = msg_sender e \<or>
              hasRole s (VERIFIER_ROLE kec) (msg_sender e)
      then Inr (True,
             s\<lparr>credentials := (credentials s)(generateCredentialId kec did credentialHash :=
                  (credentials s (generateCredentialId kec did credentialHash))
                    \<lparr>Credential.isRevoked := True,
                     Credential.revokedAt := block_timestamp e,
                     Credential.revokedBy := msg_sender e\<rparr>),
               events := events s @
                 [CredentialRevoked (generateCredentialId kec did credentialHash) did
                    (msg_sender e) (block_timestamp e)]\<rparr>)
      else Inl (Revert ''Unauthorized''))"
  using assms by (simp add: revokeCredential_def guards Let_def)

text \<open>
  C1. A registered, non-revoked credential is to be revocable by its original registrant
  and by every holder of the Verifier role: \<open>revokeCredential\<close> says so itself, in
  its comment (\<open>Only the issuer or verifier can revoke\<close>) and in the
  \<open>hasRole(VERIFIER_ROLE, msg.sender)\<close> alternative of its authorisation check. The
  modifier \<open>onlyRole(ISSUER_ROLE)\<close> on the function runs first, however. Account 1
  deployed the registry and so holds the Verifier role, but not the Issuer role; the
  credential registered by account 2 is registered and not revoked, and account 1 meets
  the authorisation check of the body; yet the call by account 1 reverts with
  \<open>AccessControl: missing role\<close>.
\<close>

theorem revokeCredential_verifier_rejected:
  "hasRole registry_with_credential (VERIFIER_ROLE length_hash) 1 \<and>
   \<not> hasRole registry_with_credential (ISSUER_ROLE length_hash) 1 \<and>
   isCredentialValid length_hash registry_with_credential ''did:a'' ''h1'' \<and>
   (Credential.registeredBy
      (credentials registry_with_credential (generateCredentialId length_hash ''did:a'' ''h1'')) = 1 \<or>
    hasRole registry_with_credential (VERIFIER_ROLE length_hash) 1) \<and>
   revokeCredential length_hash registry_with_credential (call_by 1 130) ''did:a'' ''h1'' =
     Inl (Revert ''AccessControl: missing role'')"
  by (simp add: evals)

text \<open>
  C2. For non-empty \<open>did\<close> and \<open>credentialHash\<close>, an Issuer-role caller and an
  identifier not registered before, \<open>registerCredential\<close> succeeds and returns the
  derived identifier; \<open>isCredentialValid\<close> is true afterwards; and after any further
  sequence of transactions, every \<open>registerCredential\<close> with the same \<open>did\<close> and
  \<open>credentialHash\<close> by an Issuer-role caller reverts with \<open>Already registered\<close>,
  in particular after the credential has been revoked.
\<close>

theorem registerCredential_write_once:
  assumes "hasRole s (ISSUER_ROLE kec) (msg_sender e)" and "did \<noteq> []" and "credentialHash \<noteq> []"
    and "\<not> Credential.isRegistered (credentials s (generateCredentialId kec did credentialHash))"
  shows "\<exists>s1.
     registerCredential kec s e did credentialHash uri =
       Inr (generateCredentialId kec did credentialHash, s1) \<and>
     isCredentialValid kec s1 did credentialHash \<and>
     (\<forall>txs e' uri'. hasRole (run kec s1 txs) (ISSUER_ROLE kec) (msg_sender e') \<longrightarrow>
        registerCredential kec (run kec s1 txs) e' did credentialHash uri' =
          Inl (Revert ''Already registered'')) \<and>
     (\<forall>e2 s2 e' uri'. revokeCredential kec s1 e2 did credentialHash = Inr (True, s2) \<longrightarrow>
        hasRole s2 (ISSUER_ROLE kec) (msg_sender e') \<longrightarrow>
        registerCredential kec s2 e' did credentialHash uri' = Inl (Revert ''Already registered''))"
proof -
  let ?i = "generateCredentialId kec did credentialHash"
  obtain s1 where r: "registerCredential kec s e did credentialHash uri = Inr (?i, s1)"
    using assms by (simp add: registerCredential_def guards Let_def)
  have reg: "Credential.isRegistered (credentials s1 ?i)" "\<not> Credential.isRevoked (credentials s1 ?i)"
    using r assms by (auto simp: registerCredential_def guards Let_def)
  have v: "isCredentialValid kec s1 did credentialHash"
    using reg by (simp add: isCredentialValid_def Let_def)
  have again: "registerCredential kec s' e' did credentialHash uri' = Inl (Revert ''Already registered'')"
    if "Credential.isRegistered (credentials s' ?i)" "hasRole s' (ISSUER_ROLE kec) (msg_sender e')"
    for s' and e' :: env and uri'
    using that assms(2,3) by (simp add: registerCredential_def guards Let_def)
  have a: "\<forall>txs e' uri'. hasRole (run kec s1 txs) (ISSUER_ROLE kec) (msg_sender e') \<longrightarrow>
        registerCredential kec (run kec s1 txs) e' did credentialHash uri' =
          Inl (Revert ''Already registered'')"
    using again run_cred_isRegistered [OF reg(1)] by blast
  have b: "\<forall>e2 s2 e' uri'. revokeCredential kec s1 e2 did credentialHash = Inr (True, s2) \<longrightarrow>
        hasRole s2 (ISSUER_ROLE kec) (msg_sender e') \<longrightarrow>
        registerCredential kec s2 e' did credentialHash uri' = Inl (Revert ''Already registered'')"
  proof (intro allI impI)
    fix e2 s2 and e' :: env and uri'
    assume rv: "revokeCredential kec s1 e2 did credentialHash = Inr (True, s2)"
      and h: "hasRole s2 (ISSUER_ROLE kec) (msg_sender e')"
    have "exec kec s1 e2 (RevokeCredential did credentialHash) = Inr s2"
      using rv by simp
    then have "Credential.isRegistered (credentials s2 ?i)"
      using reg(1) by (rule exec_cred_isRegistered)
    then show "registerCredential kec s2 e' did credentialHash uri' = Inl (Revert ''Already registered'')"
      using h by (rule again)
  qed
  show ?thesis using r v a b by blast
qed

theorem registerCredential_write_once_witness:
  "hasRole registry_with_issuer (ISSUER_ROLE length_hash) (msg_sender (call_by 2 120)) \<and>
   ''did:a'' \<noteq> [] \<and> ''h1'' \<noteq> [] \<and>
   \<not> Credential.isRegistered (credentials registry_with_issuer (generateCredentialId length_hash ''did:a'' ''h1'')) \<and>
   (\<exists>s1. registerCredential length_hash registry_with_issuer (call_by 2 120) ''did:a'' ''h1'' ''ipfs://m'' =
            Inr (generateCredentialId length_hash ''did:a'' ''h1'', s1) \<and>
         isCredentialValid length_hash s1 ''did:a'' ''h1'' \<and>
         registerCredential length_hash s1 (call_by 2 125) ''did:a'' ''h1'' ''ipfs://n'' =
           Inl (Revert ''Already registered''))"
proof -
  have h1: "hasRole registry_with_issuer (ISSUER_ROLE length_hash) (msg_sender (call_by 2 120))"
    by (simp add: evals)
  have h2: "''did:a'' \<noteq> []" and h3: "''h1'' \<noteq> []" by simp_all
  have h4: "\<not> Credential.isRegistered
       (credentials registry_with_issuer (generateCredentialId length_hash ''did:a'' ''h1''))"
    by (simp add: evals)
  obtain s1 where
    a: "registerCredential length_hash registry_with_issuer (call_by 2 120) ''did:a'' ''h1'' ''ipfs://m'' =
            Inr (generateCredentialId length_hash ''did:a'' ''h1'', s1)"
    and b: "isCredentialValid length_hash s1 ''did:a'' ''h1''"
    and c: "\<forall>txs e' uri'. hasRole (run length_hash s1 txs) (ISSUER_ROLE length_hash) (msg_sender e') \<longrightarrow>
        registerCredential length_hash (run length_hash s1 txs) e' ''did:a'' ''h1'' uri' =
          Inl (Revert ''Already registered'')"
    using registerCredential_write_once [OF h1 h2 h3 h4, of "''ipfs://m''"] by blast
  have r: "hasRole s1 (ISSUER_ROLE length_hash) 2"
    using a by (auto simp: evals)
  have "registerCredential length_hash s1 (call_by 2 125) ''did:a'' ''h1'' ''ipfs://n'' =
           Inl (Revert ''Already registered'')"
    using c [rule_format, of "[]" "call_by 2 125" "''ipfs://n''"] r by simp
  then show ?thesis using h1 h2 h3 h4 a b by blast
qed



section \<open>ConsentRegistry: grant, revoke, expiry\<close>

text \<open>
  C4. In every reachable storage and for non-empty \<open>userDid\<close>, \<open>verifierDid\<close> and
  \<open>purpose\<close>: \<open>grantConsent\<close> with \<open>expiresAt = 0\<close> succeeds, leaves under the
  key a registered, non-revoked record, and the consent is valid at every time;
  \<open>revokeConsent\<close> then succeeds and keeps that record, still registered, with
  \<open>isRevoked\<close> set and \<open>revokedAt\<close> and \<open>revokedBy\<close> holding the time and the
  caller of the revocation, and the consent is valid at no time; a further
  \<open>grantConsent\<close> on the same key (any categories, access level, expiry and caller)
  succeeds and rewrites that same record, with \<open>isRevoked\<close>, \<open>revokedAt\<close> and
  \<open>revokedBy\<close> cleared and the other fields overwritten by the new grant. Each of the
  three calls changes nothing else in the storage but the event log, which gains one
  event per call. The consent is then valid again: at every time when the new expiry is
  0, and up to the new expiry otherwise.
\<close>

theorem consent_round_trip:
  assumes "reachable kec s" and "userDid \<noteq> []" and "verifierDid \<noteq> []" and "purp \<noteq> []"
  shows "\<exists>s1 s2 s3.
     grantConsent kec s e1 userDid verifierDid purp cats1 level1 0 = Inr (True, s1) \<and>
     s1 = s\<lparr>consents := (consents s)(generateConsentKey kec userDid verifierDid purp :=
               \<lparr>ConsentRecord.isRegistered = True, isRevoked = False,
                registeredAt = block_timestamp e1, revokedAt = 0,
                registeredBy = msg_sender e1, revokedBy = 0,
                expiresAt = 0, purpose = purp, dataCategories = cats1, accessLevel = level1\<rparr>),
            events := events s @
              [ConsentGranted userDid verifierDid purp (msg_sender e1) (block_timestamp e1)]\<rparr> \<and>
     (\<forall>t. isConsentValid kec s1 t userDid verifierDid purp) \<and>
     revokeConsent kec s1 e2 userDid verifierDid purp = Inr (True, s2) \<and>
     s2 = s1\<lparr>consents := (consents s1)(generateConsentKey kec userDid verifierDid purp :=
               \<lparr>ConsentRecord.isRegistered = True, isRevoked = True,
                registeredAt = block_timestamp e1, revokedAt = block_timestamp e2,
                registeredBy = msg_sender e1, revokedBy = msg_sender e2,
                expiresAt = 0, purpose = purp, dataCategories = cats1, accessLevel = level1\<rparr>),
            events := events s1 @
              [ConsentRevoked userDid verifierDid purp (msg_sender e2) (block_timestamp e2)]\<rparr> \<and>
     (\<forall>t. \<not> isConsentValid kec s2 t userDid verifierDid purp) \<and>
     grantConsent kec s2 e3 userDid verifierDid purp cats3 level3 expires3 = Inr (True, s3) \<and>
     s3 = s2\<lparr>consents := (consents s2)(generateConsentKey kec userDid verifierDid purp :=
               \<lparr>ConsentRecord.isRegistered = True, isRevoked = False,
                registeredAt = block_timestamp e3, revokedAt = 0,
                registeredBy = msg_sender e3, revokedBy = 0,
                expiresAt = expires3, purpose = purp, dataCategories = cats3,
                accessLevel = level3\<rparr>),
            events := events s2 @
              [ConsentGranted userDid verifierDid purp (msg_sender e3) (block_timestamp e3)]\<rparr> \<and>
     consents s3 (generateConsentKey kec userDid verifierDid purp) =
       \<lparr>ConsentRecord.isRegistered = True, isRevoked = False,
        registeredAt = block_timestamp e3, revokedAt = 0,
        registeredBy = msg_sender e3, revokedBy = 0,
        expiresAt = expires3, purpose = purp, dataCategories = cats3, accessLevel = level3\<rparr> \<and>
     (\<forall>k. k \<noteq> generateConsentKey kec userDid verifierDid purp \<longrightarrow> consents s3 k = consents s k) \<and>
     (\<forall>t. isConsentValid kec s3 t userDid verifierDid purp \<longleftrightarrow>
            expires3 = 0 \<or> block_timestamp t \<le> expires3)"
proof -
  let ?k = "generateConsentKey kec userDid verifierDid purp"
  let ?r1 = "\<lparr>ConsentRecord.isRegistered = True, isRevoked = False,
                registeredAt = block_timestamp e1, revokedAt = 0,
                registeredBy = msg_sender e1, revokedBy = 0,
                expiresAt = 0, purpose = purp, dataCategories = cats1, accessLevel = level1\<rparr>"
  let ?r2 = "\<lparr>ConsentRecord.isRegistered = True, isRevoked = True,
                registeredAt = block_timestamp e1, revokedAt = block_timestamp e2,
                registeredBy = msg_sender e1, revokedBy = msg_sender e2,
                expiresAt = 0, purpose = purp, dataCategories = cats1, accessLevel = level1\<rparr>"
  let ?r3 = "\<lparr>ConsentRecord.isRegistered = True, isRevoked = False,
                registeredAt = block_timestamp e3, revokedAt = 0,
                registeredBy = msg_sender e3, revokedBy = 0,
                expiresAt = expires3, purpose = purp, dataCategories = cats3,
                accessLevel = level3\<rparr>"
  let ?s1 = "s\<lparr>consents := (consents s)(?k := ?r1),
            events := events s @
              [ConsentGranted userDid verifierDid purp (msg_sender e1) (block_timestamp e1)]\<rparr>"
  let ?s2 = "?s1\<lparr>consents := (consents ?s1)(?k := ?r2),
            events := events ?s1 @
              [ConsentRevoked userDid verifierDid purp (msg_sender e2) (block_timestamp e2)]\<rparr>"
  let ?s3 = "?s2\<lparr>consents := (consents ?s2)(?k := ?r3),
            events := events ?s2 @
              [ConsentGranted userDid verifierDid purp (msg_sender e3) (block_timestamp e3)]\<rparr>"
  have inv: "ConsentRecord.isRevoked (consents s ?k) \<longrightarrow> ConsentRecord.isRegistered (consents s ?k)"
    using assms(1) by (rule reachable_inv(2))
  have clr: "\<not> ConsentRecord.isRevoked (consents s ?k) \<longrightarrow>
      ConsentRecord.revokedAt (consents s ?k) = 0 \<and> ConsentRecord.revokedBy (consents s ?k) = 0"
    using assms(1) by (rule reachable_consent_cleared)
  have rec1: "(if ConsentRecord.isRegistered (consents s ?k) \<and> ConsentRecord.isRevoked (consents s ?k)
          then (consents s ?k)\<lparr>ConsentRecord.isRevoked := False,
                                 ConsentRecord.revokedAt := 0,
                                 ConsentRecord.revokedBy := 0\<rparr>
          else consents s ?k)
         \<lparr>ConsentRecord.isRegistered := True,
          ConsentRecord.registeredAt := block_timestamp e1,
          ConsentRecord.registeredBy := msg_sender e1,
          expiresAt := 0, purpose := purp, dataCategories := cats1, accessLevel := level1\<rparr> = ?r1"
    using inv clr by (cases "consents s ?k") auto
  have g1: "grantConsent kec s e1 userDid verifierDid purp cats1 level1 0 = Inr (True, ?s1)"
    using assms(2-4) rec1 by (simp add: grantConsent_def guards Let_def)
  have v1: "\<forall>t. isConsentValid kec ?s1 t userDid verifierDid purp"
    by (simp add: isConsentValid_def Let_def)
  have r2: "revokeConsent kec ?s1 e2 userDid verifierDid purp = Inr (True, ?s2)"
    by (simp add: revokeConsent_def guards Let_def)
  have v2: "\<forall>t. \<not> isConsentValid kec ?s2 t userDid verifierDid purp"
    by (simp add: isConsentValid_def Let_def)
  have g3: "grantConsent kec ?s2 e3 userDid verifierDid purp cats3 level3 expires3 = Inr (True, ?s3)"
    using assms(2-4) by (simp add: grantConsent_def guards Let_def)
  have c3: "consents ?s3 ?k = ?r3" by simp
  have o3: "\<forall>k. k \<noteq> ?k \<longrightarrow> consents ?s3 k = consents s k" by simp
  have v3: "\<forall>t. isConsentValid kec ?s3 t userDid verifierDid purp \<longleftrightarrow>
            expires3 = 0 \<or> block_timestamp t \<le> expires3"
    by (auto simp: isConsentValid_def Let_def word_gt_0 not_less)
  show ?thesis
    apply (rule exI [of _ ?s1])
    apply (rule exI [of _ ?s2])
    apply (rule exI [of _ ?s3])
    using g1 v1 r2 v2 g3 c3 o3 v3 by blast
qed

theorem consent_round_trip_witness:
  "reachable length_hash fresh_registry \<and> ''did:a'' \<noteq> [] \<and> ''did:v'' \<noteq> [] \<and> ''kyc'' \<noteq> [] \<and>
   (\<exists>s1 s2 s3.
      grantConsent length_hash fresh_registry (call_by 5 100) ''did:a'' ''did:v'' ''kyc'' ''email'' ReadOnly 0
        = Inr (True, s1) \<and>
      isConsentValid length_hash s1 (call_by 6 150) ''did:a'' ''did:v'' ''kyc'' \<and>
      revokeConsent length_hash s1 (call_by 5 200) ''did:a'' ''did:v'' ''kyc'' = Inr (True, s2) \<and>
      consents s2 (generateConsentKey length_hash ''did:a'' ''did:v'' ''kyc'') =
        \<lparr>ConsentRecord.isRegistered = True, isRevoked = True,
         registeredAt = 100, revokedAt = 200, registeredBy = 5, revokedBy = 5,
         expiresAt = 0, purpose = ''kyc'', dataCategories = ''email'', accessLevel = ReadOnly\<rparr> \<and>
      \<not> isConsentValid length_hash s2 (call_by 6 250) ''did:a'' ''did:v'' ''kyc'' \<and>
      grantConsent length_hash s2 (call_by 7 300) ''did:a'' ''did:v'' ''kyc'' ''phone'' OneTime 0
        = Inr (True, s3) \<and>
      consents s3 (generateConsentKey length_hash ''did:a'' ''did:v'' ''kyc'') =
        \<lparr>ConsentRecord.isRegistered = True, isRevoked = False,
         registeredAt = 300, revokedAt = 0, registeredBy = 7, revokedBy = 0,
         expiresAt = 0, purpose = ''kyc'', dataCategories = ''phone'', accessLevel = OneTime\<rparr> \<and>
      isConsentValid length_hash s3 (call_by 6 350) ''did:a'' ''did:v'' ''kyc'')"
proof -
  let ?k = "generateConsentKey length_hash ''did:a'' ''did:v'' ''kyc''"
  have r: "reachable length_hash fresh_registry" by (rule reachable.deployed)
  have n: "''did:a'' \<noteq> []" "''did:v'' \<noteq> []" "''kyc'' \<noteq> []" by simp_all
  obtain s1 s2 s3 where
    a: "grantConsent length_hash fresh_registry (call_by 5 100) ''did:a'' ''did:v'' ''kyc'' ''email'' ReadOnly 0
        = Inr (True, s1)"
    and b: "\<forall>t. isConsentValid length_hash s1 t ''did:a'' ''did:v'' ''kyc''"
    and c: "revokeConsent length_hash s1 (call_by 5 200) ''did:a'' ''did:v'' ''kyc'' = Inr (True, s2)"
    and c': "s2 = s1\<lparr>consents := (consents s1)(?k :=
               \<lparr>ConsentRecord.isRegistered = True, isRevoked = True,
                registeredAt = block_timestamp (call_by 5 100),
                revokedAt = block_timestamp (call_by 5 200),
                registeredBy = msg_sender (call_by 5 100), revokedBy = msg_sender (call_by 5 200),
                expiresAt = 0, purpose = ''kyc'', dataCategories = ''email'',
                accessLevel = ReadOnly\<rparr>),
            events := events s1 @
              [ConsentRevoked ''did:a'' ''did:v'' ''kyc'' (msg_sender (call_by 5 200))
                 (block_timestamp (call_by 5 200))]\<rparr>"
    and d: "\<forall>t. \<not> isConsentValid length_hash s2 t ''did:a'' ''did:v'' ''kyc''"
    and f: "grantConsent length_hash s2 (call_by 7 300) ''did:a'' ''did:v'' ''kyc'' ''phone'' OneTime 0
        = Inr (True, s3)"
    and g: "consents s3 ?k =
       \<lparr>ConsentRecord.isRegistered = True, isRevoked = False,
        registeredAt = block_timestamp (call_by 7 300), revokedAt = 0,
        registeredBy = msg_sender (call_by 7 300), revokedBy = 0,
        expiresAt = 0, purpose = ''kyc'', dataCategories = ''phone'', accessLevel = OneTime\<rparr>"
    and h: "\<forall>t. isConsentValid length_hash s3 t ''did:a'' ''did:v'' ''kyc'' \<longleftrightarrow>
            (0 :: uint256) = 0 \<or> block_timestamp t \<le> 0"
    using consent_round_trip [OF r n, of "call_by 5 100" "''email''" ReadOnly "call_by 5 200"
        "call_by 7 300" "''phone''" OneTime 0]
    by blast
  have c2: "consents s2 ?k =
        \<lparr>ConsentRecord.isRegistered = True, isRevoked = True,
         registeredAt = 100, revokedAt = 200, registeredBy = 5, revokedBy = 5,
         expiresAt = 0, purpose = ''kyc'', dataCategories = ''email'', accessLevel = ReadOnly\<rparr>"
    by (simp add: c')
  have g': "consents s3 ?k =
        \<lparr>ConsentRecord.isRegistered = True, isRevoked = False,
         registeredAt = 300, revokedAt = 0, registeredBy = 7, revokedBy = 0,
         expiresAt = 0, purpose = ''kyc'', dataCategories = ''phone'', accessLevel = OneTime\<rparr>"
    using g by simp
  have h': "isConsentValid length_hash s3 (call_by 6 350) ''did:a'' ''did:v'' ''kyc''"
    using h by simp
  show ?thesis using r n a b c c2 d f g' h' by blast
qed

text \<open>
  C5. \<open>isConsentValid\<close> is true exactly when the record is registered, not revoked, and
  its \<open>expiresAt\<close> is 0 or not before the current block time. \<open>grantConsent\<close> accepts
  every \<open>expiresAt\<close>, also a non-zero one in the past, and stores it unchecked; after the
  grant the consent is valid at a time \<open>t\<close> exactly when \<open>expiresAt = 0\<close> or
  \<open>t \<le> expiresAt\<close>. In particular, granted with \<open>expiresAt = now + 1\<close>, it is valid
  at time \<open>now + 1\<close> and invalid at every later time.
\<close>

theorem isConsentValid_expiry:
  "(isConsentValid kec s e userDid verifierDid purp \<longleftrightarrow>
      ConsentRecord.isRegistered (consents s (generateConsentKey kec userDid verifierDid purp)) \<and>
      \<not> ConsentRecord.isRevoked (consents s (generateConsentKey kec userDid verifierDid purp)) \<and>
      (expiresAt (consents s (generateConsentKey kec userDid verifierDid purp)) = 0 \<or>
       block_timestamp e \<le> expiresAt (consents s (generateConsentKey kec userDid verifierDid purp)))) \<and>
   (reachable kec s \<and> userDid \<noteq> [] \<and> verifierDid \<noteq> [] \<and> purp \<noteq> [] \<longrightarrow>
      (\<exists>s'. grantConsent kec s e userDid verifierDid purp cats level expires = Inr (True, s') \<and>
         expiresAt (consents s' (generateConsentKey kec userDid verifierDid purp)) = expires \<and>
         (\<forall>e'. isConsentValid kec s' e' userDid verifierDid purp \<longleftrightarrow>
                  expires = 0 \<or> block_timestamp e' \<le> expires) \<and>
         (unat expires = unat (block_timestamp e) + 1 \<longrightarrow>
            (\<forall>e'. isConsentValid kec s' e' userDid verifierDid purp \<longleftrightarrow>
                     block_timestamp e' \<le> expires))))"
proof -
  let ?k = "generateConsentKey kec userDid verifierDid purp"
  have a: "isConsentValid kec s e userDid verifierDid purp \<longleftrightarrow>
            ConsentRecord.isRegistered (consents s ?k) \<and>
            \<not> ConsentRecord.isRevoked (consents s ?k) \<and>
            (expiresAt (consents s ?k) = 0 \<or> block_timestamp e \<le> expiresAt (consents s ?k))"
    by (auto simp: isConsentValid_def Let_def word_gt_0 not_less)
  have b: "\<exists>s'. grantConsent kec s e userDid verifierDid purp cats level expires = Inr (True, s') \<and>
            expiresAt (consents s' ?k) = expires \<and>
            (\<forall>e'. isConsentValid kec s' e' userDid verifierDid purp \<longleftrightarrow>
                     expires = 0 \<or> block_timestamp e' \<le> expires) \<and>
            (unat expires = unat (block_timestamp e) + 1 \<longrightarrow>
               (\<forall>e'. isConsentValid kec s' e' userDid verifierDid purp \<longleftrightarrow>
                        block_timestamp e' \<le> expires))"
    if re: "reachable kec s" and ne: "userDid \<noteq> []" "verifierDid \<noteq> []" "purp \<noteq> []"
  proof -
    have inv: "ConsentRecord.isRevoked (consents s ?k) \<longrightarrow> ConsentRecord.isRegistered (consents s ?k)"
      using re by (rule reachable_inv(2))
    have nz: "unat expires = unat (block_timestamp e) + 1 \<Longrightarrow> expires \<noteq> 0"
      by (auto simp: unat_eq_0)
    show ?thesis
      using ne inv nz
      by (auto simp: grantConsent_def isConsentValid_def guards Let_def word_gt_0 not_less)
  qed
  show ?thesis using a b by blast
qed

theorem isConsentValid_expiry_witness:
  "reachable length_hash fresh_registry \<and> ''did:a'' \<noteq> [] \<and> ''did:v'' \<noteq> [] \<and> ''kyc'' \<noteq> [] \<and>
   unat (101 :: uint256) = unat (block_timestamp (call_by 5 100)) + 1 \<and>
   (\<exists>s'. grantConsent length_hash fresh_registry (call_by 5 100) ''did:a'' ''did:v'' ''kyc'' ''email'' ReadOnly 101
           = Inr (True, s') \<and>
         isConsentValid length_hash s' (call_by 6 101) ''did:a'' ''did:v'' ''kyc'' \<and>
         \<not> isConsentValid length_hash s' (call_by 6 102) ''did:a'' ''did:v'' ''kyc'')"
proof -
  have r: "reachable length_hash fresh_registry" by (rule reachable.deployed)
  have u: "unat (101 :: uint256) = unat (block_timestamp (call_by 5 100)) + 1" by simp
  obtain s' where
    g: "grantConsent length_hash fresh_registry (call_by 5 100) ''did:a'' ''did:v'' ''kyc'' ''email'' ReadOnly 101
           = Inr (True, s')"
    and v: "unat (101 :: uint256) = unat (block_timestamp (call_by 5 100)) + 1 \<longrightarrow>
            (\<forall>e'. isConsentValid length_hash s' e' ''did:a'' ''did:v'' ''kyc'' \<longleftrightarrow>
                     block_timestamp e' \<le> 101)"
    using isConsentValid_expiry [of length_hash fresh_registry "call_by 5 100" "''did:a''" "''did:v''"
        "''kyc''" "''email''" ReadOnly 101] r
    by auto
  have "isConsentValid length_hash s' (call_by 6 101) ''did:a'' ''did:v'' ''kyc''"
    "\<not> isConsentValid length_hash s' (call_by 6 102) ''did:a'' ''did:v'' ''kyc''"
    using v u by simp_all
  then show ?thesis using r u g by auto
qed

section \<open>SchemaRegistry: versions\<close>

text \<open>
  C6. After any run of transactions on a freshly deployed registry, the version of a
  schema identifier equals the number of successful \<open>registerSchema\<close> calls on it, and
  \<open>getSchemaURI\<close> returns the URI of the most recent of them (and reverts with
  \<open>Schema not found\<close> when there was none). In every reachable storage a successful
  \<open>registerSchema\<close> raises the version by exactly one, to 1 when the identifier was not
  registered before, and \<open>getSchemaURI\<close> then returns the URI just supplied.
\<close>

theorem registerSchema_versioning:
  "unat (version (schemas (run kec (SSIRegistry_constructor kec e0 nm descr did) txs) sid)) =
     length (schema_writes kec (SSIRegistry_constructor kec e0 nm descr did) txs sid) \<and>
   getSchemaURI (run kec (SSIRegistry_constructor kec e0 nm descr did) txs) sid =
     (if schema_writes kec (SSIRegistry_constructor kec e0 nm descr did) txs sid = []
      then Inl (Revert ''Schema not found'')
      else Inr (last (schema_writes kec (SSIRegistry_constructor kec e0 nm descr did) txs sid))) \<and>
   (\<forall>s e uri b s'. reachable kec s \<longrightarrow> registerSchema kec s e sid uri = Inr (b, s') \<longrightarrow>
      unat (version (schemas s' sid)) = unat (version (schemas s sid)) + 1 \<and>
      (\<not> Schema.isRegistered (schemas s sid) \<longrightarrow> version (schemas s' sid) = 1) \<and>
      getSchemaURI s' sid = Inr uri)"
proof -
  let ?s0 = "SSIRegistry_constructor kec e0 nm descr did"
  have z: "schemas ?s0 sid = zero_Schema" by (simp add: constructor_fields)
  have inv0: "\<not> Schema.isRegistered (schemas ?s0 sid) \<longrightarrow> version (schemas ?s0 sid) = 0"
    by (simp add: z zero_Schema_def)
  note r = run_schema [OF inv0, of kec txs]
  have a: "unat (version (schemas (run kec ?s0 txs) sid)) = length (schema_writes kec ?s0 txs sid)"
    using r by (simp add: z zero_Schema_def)
  have b: "getSchemaURI (run kec ?s0 txs) sid =
     (if schema_writes kec ?s0 txs sid = [] then Inl (Revert ''Schema not found'')
      else Inr (last (schema_writes kec ?s0 txs sid)))"
    using r by (auto simp: getSchemaURI_def require_def z zero_Schema_def)
  have c: "\<forall>s e uri b s'. reachable kec s \<longrightarrow> registerSchema kec s e sid uri = Inr (b, s') \<longrightarrow>
      unat (version (schemas s' sid)) = unat (version (schemas s sid)) + 1 \<and>
      (\<not> Schema.isRegistered (schemas s sid) \<longrightarrow> version (schemas s' sid) = 1) \<and>
      getSchemaURI s' sid = Inr uri"
  proof (intro allI impI)
    fix s e uri b s'
    assume re: "reachable kec s" and rs: "registerSchema kec s e sid uri = Inr (b, s')"
    note st = registerSchema_step [OF rs reachable_inv(3) [OF re]]
    show "unat (version (schemas s' sid)) = unat (version (schemas s sid)) + 1 \<and>
      (\<not> Schema.isRegistered (schemas s sid) \<longrightarrow> version (schemas s' sid) = 1) \<and>
      getSchemaURI s' sid = Inr uri"
      using st by (simp add: getSchemaURI_def require_def)
  qed
  show ?thesis using a b c by blast
qed

theorem registerSchema_versioning_witness:
  "schema_writes length_hash fresh_registry
     [(call_by 1 110, AddIssuer 2),
      (call_by 2 120, RegisterSchema ''schema:id'' ''ipfs://v1''),
      (call_by 1 130, AddIssuer 3),
      (call_by 3 140, RegisterSchema ''schema:id'' ''ipfs://bad''),
      (call_by 2 150, RegisterSchema ''schema:other'' ''ipfs://o''),
      (call_by 2 160, RegisterSchema ''schema:id'' ''ipfs://v2'')] ''schema:id''
     = [''ipfs://v1'', ''ipfs://v2''] \<and>
   unat (version (schemas (run length_hash fresh_registry
     [(call_by 1 110, AddIssuer 2),
      (call_by 2 120, RegisterSchema ''schema:id'' ''ipfs://v1''),
      (call_by 1 130, AddIssuer 3),
      (call_by 3 140, RegisterSchema ''schema:id'' ''ipfs://bad''),
      (call_by 2 150, RegisterSchema ''schema:other'' ''ipfs://o''),
      (call_by 2 160, RegisterSchema ''schema:id'' ''ipfs://v2'')]) ''schema:id'')) = 2 \<and>
   getSchemaURI (run length_hash fresh_registry
     [(call_by 1 110, AddIssuer 2),
      (call_by 2 120, RegisterSchema ''schema:id'' ''ipfs://v1''),
      (call_by 1 130, AddIssuer 3),
      (call_by 3 140, RegisterSchema ''schema:id'' ''ipfs://bad''),
      (call_by 2 150, RegisterSchema ''schema:other'' ''ipfs://o''),
      (call_by 2 160, RegisterSchema ''schema:id'' ''ipfs://v2'')]) ''schema:id'' = Inr ''ipfs://v2''"
proof -
  let ?txs = "[(call_by 1 110, AddIssuer 2),
      (call_by 2 120, RegisterSchema ''schema:id'' ''ipfs://v1''),
      (call_by 1 130, AddIssuer 3),
      (call_by 3 140, RegisterSchema ''schema:id'' ''ipfs://bad''),
      (call_by 2 150, RegisterSchema ''schema:other'' ''ipfs://o''),
      (call_by 2 160, RegisterSchema ''schema:id'' ''ipfs://v2'')]"
  have w: "schema_writes length_hash fresh_registry ?txs ''schema:id'' = [''ipfs://v1'', ''ipfs://v2'']"
    by (simp add: schema_write_def evals)
  show ?thesis
    using registerSchema_versioning [of length_hash "call_by 1 100" "''registry''" "''demo''" 9
        ?txs "''schema:id''"]
    unfolding w by simp
qed

section \<open>SSIRegistryFactory: who holds which role\<close>

text \<open>
  C7. \<open>createRegistry\<close>, called by a non-zero account other than the factory itself,
  returns a registry whose owner is the caller, while the Verifier role is held by the
  factory address and the caller holds neither the Verifier nor the Issuer role. The
  caller's \<open>grantRole\<close>, \<open>addIssuer\<close>, \<open>addVerifier\<close>, \<open>registerCredential\<close>,
  \<open>revokeCredential\<close> and \<open>registerSchema\<close> on that registry all revert with
  \<open>AccessControl: missing role\<close>, and no sequence of transactions sent by accounts other
  than the factory changes any role membership.
\<close>

theorem createRegistry_roles:
  assumes "msg_sender e \<noteq> 0" and "msg_sender e \<noteq> this"
  shows "\<exists>reg f'.
     createRegistry kec this fresh f e nm descr = Inr (fresh, reg, f') \<and>
     owner reg = msg_sender e \<and>
     hasRole reg (VERIFIER_ROLE kec) this \<and>
     \<not> hasRole reg (VERIFIER_ROLE kec) (msg_sender e) \<and>
     \<not> hasRole reg (ISSUER_ROLE kec) (msg_sender e) \<and>
     (\<forall>e' :: env. msg_sender e' = msg_sender e \<longrightarrow>
        (\<forall>role account. grantRole kec reg e' role account =
           Inl (Revert ''AccessControl: missing role'')) \<and>
        (\<forall>account. addIssuer kec reg e' account = Inl (Revert ''AccessControl: missing role'')) \<and>
        (\<forall>account. addVerifier kec reg e' account = Inl (Revert ''AccessControl: missing role'')) \<and>
        (\<forall>did h uri. registerCredential kec reg e' did h uri =
           Inl (Revert ''AccessControl: missing role'')) \<and>
        (\<forall>did h. revokeCredential kec reg e' did h =
           Inl (Revert ''AccessControl: missing role'')) \<and>
        (\<forall>sid uri. registerSchema kec reg e' sid uri =
           Inl (Revert ''AccessControl: missing role''))) \<and>
     (\<forall>txs. (\<forall>tx \<in> set txs. msg_sender (fst tx) \<noteq> this) \<longrightarrow>
        roles (run kec reg txs) = roles reg)"
proof -
  let ?inner = "e\<lparr>msg_sender := this\<rparr>"
  let ?c = "SSIRegistry_constructor kec ?inner nm descr (SSIRegistryFactory.didRegistry f)"
  let ?reg = "?c\<lparr>owner := msg_sender e,
      events := events ?c @ [OwnershipTransferred (owner ?c) (msg_sender e)]\<rparr>"
  have t: "transferOwnership ?c ?inner (msg_sender e) = Inr ?reg"
    using assms(1) by (simp add: transferOwnership_def guards constructor_fields)
  have cr: "createRegistry kec this fresh f e nm descr =
      Inr (fresh, ?reg,
           f\<lparr>registries := registries f @ [fresh],
             factory_events := factory_events f @
               [RegistryCreated fresh nm descr (msg_sender e) (SSIRegistryFactory.didRegistry f)]\<rparr>)"
    unfolding createRegistry_def Let_def t by simp
  have r: "roles ?reg = (\<lambda>r a. r = VERIFIER_ROLE kec \<and> a = this)"
    by (simp add: constructor_fields)
  have none: "\<not> roles ?reg x (msg_sender e)" for x
    using assms(2) by (simp add: r)
  have gated: "\<forall>e' :: env. msg_sender e' = msg_sender e \<longrightarrow>
        (\<forall>role account. grantRole kec ?reg e' role account =
           Inl (Revert ''AccessControl: missing role'')) \<and>
        (\<forall>account. addIssuer kec ?reg e' account = Inl (Revert ''AccessControl: missing role'')) \<and>
        (\<forall>account. addVerifier kec ?reg e' account = Inl (Revert ''AccessControl: missing role'')) \<and>
        (\<forall>did h uri. registerCredential kec ?reg e' did h uri =
           Inl (Revert ''AccessControl: missing role'')) \<and>
        (\<forall>did h. revokeCredential kec ?reg e' did h =
           Inl (Revert ''AccessControl: missing role'')) \<and>
        (\<forall>sid uri. registerSchema kec ?reg e' sid uri =
           Inl (Revert ''AccessControl: missing role''))"
    using none
    by (simp add: grantRole_def addIssuer_def addVerifier_def registerCredential_def
        revokeCredential_def registerSchema_def require_def onlyRole_def hasRole_def)
  have only: "\<forall>a. hasRole ?reg (VERIFIER_ROLE kec) a \<longrightarrow> a = this"
    by (simp add: hasRole_def r)
  have frozen: "\<forall>txs. (\<forall>tx \<in> set txs. msg_sender (fst tx) \<noteq> this) \<longrightarrow>
        roles (run kec ?reg txs) = roles ?reg"
    using run_roles_frozen [OF only] by blast
  have o: "owner ?reg = msg_sender e" by simp
  have h1: "hasRole ?reg (VERIFIER_ROLE kec) this" by (simp add: hasRole_def r)
  have h2: "\<not> hasRole ?reg (VERIFIER_ROLE kec) (msg_sender e)"
    "\<not> hasRole ?reg (ISSUER_ROLE kec) (msg_sender e)"
    using none by (simp_all add: hasRole_def)
  show ?thesis using cr o h1 h2 gated frozen by blast
qed

theorem createRegistry_roles_witness:
  "msg_sender (call_by 2 100) \<noteq> 0 \<and> msg_sender (call_by 2 100) \<noteq> 7 \<and>
   (\<exists>reg f'.
      createRegistry length_hash 7 8 \<lparr>registries = [], didRegistry = 9, factory_events = []\<rparr>
        (call_by 2 100) ''tenant'' ''first'' = Inr (8, reg, f') \<and>
      owner reg = 2 \<and>
      hasRole reg (VERIFIER_ROLE length_hash) 7 \<and>
      \<not> hasRole reg (VERIFIER_ROLE length_hash) 2 \<and>
      \<not> hasRole reg (ISSUER_ROLE length_hash) 2 \<and>
      addIssuer length_hash reg (call_by 2 101) 2 = Inl (Revert ''AccessControl: missing role'') \<and>
      roles (run length_hash reg [(call_by 2 101, AddIssuer 2), (call_by 3 102, GrantRole 5 2)])
        = roles reg)"
proof -
  have h1: "msg_sender (call_by 2 100) \<noteq> 0" and h2: "msg_sender (call_by 2 100) \<noteq> 7"
    by simp_all
  obtain reg f' where
    a: "createRegistry length_hash 7 8 \<lparr>registries = [], didRegistry = 9, factory_events = []\<rparr>
        (call_by 2 100) ''tenant'' ''first'' = Inr (8, reg, f')"
    and b: "owner reg = msg_sender (call_by 2 100)"
      "hasRole reg (VERIFIER_ROLE length_hash) 7"
      "\<not> hasRole reg (VERIFIER_ROLE length_hash) (msg_sender (call_by 2 100))"
      "\<not> hasRole reg (ISSUER_ROLE length_hash) (msg_sender (call_by 2 100))"
    and c: "\<forall>e' :: env. msg_sender e' = msg_sender (call_by 2 100) \<longrightarrow>
        (\<forall>role account. grantRole length_hash reg e' role account =
           Inl (Revert ''AccessControl: missing role'')) \<and>
        (\<forall>account. addIssuer length_hash reg e' account = Inl (Revert ''AccessControl: missing role'')) \<and>
        (\<forall>account. addVerifier length_hash reg e' account = Inl (Revert ''AccessControl: missing role'')) \<and>
        (\<forall>did h uri. registerCredential length_hash reg e' did h uri =
           Inl (Revert ''AccessControl: missing role'')) \<and>
        (\<forall>did h. revokeCredential length_hash reg e' did h =
           Inl (Revert ''AccessControl: missing role'')) \<and>
        (\<forall>sid uri. registerSchema length_hash reg e' sid uri =
           Inl (Revert ''AccessControl: missing role''))"
    and d: "\<forall>txs. (\<forall>tx \<in> set txs. msg_sender (fst tx) \<noteq> 7) \<longrightarrow>
        roles (run length_hash reg txs) = roles reg"
    using createRegistry_roles [OF h1 h2, of length_hash 8
        "\<lparr>registries = [], didRegistry = 9, factory_events = []\<rparr>" "''tenant''" "''first''"]
    by blast
  have c': "addIssuer length_hash reg (call_by 2 101) 2 = Inl (Revert ''AccessControl: missing role'')"
    using c [rule_format, of "call_by 2 101"] by simp
  have d': "roles (run length_hash reg [(call_by 2 101, AddIssuer 2), (call_by 3 102, GrantRole 5 2)])
        = roles reg"
  proof -
    have "\<forall>tx \<in> set [(call_by 2 101, AddIssuer 2), (call_by 3 102, GrantRole 5 2)].
            msg_sender (fst tx) \<noteq> 7"
      by simp
    then show ?thesis using d by blast
  qed
  show ?thesis using h1 h2 a b c' d' by auto
qed

end
